theory Spec2Isabelle
  imports Complex_Main "HOL-Library.Word" "HOL-Library.Log_Nat"
begin

section \<open>Values of the program\<close>

text \<open>
  The program is \<^verbatim>\<open>cuip/hadoop/hic.py\<close>: the class \<^verbatim>\<open>HadoopImageCluster\<close> with the
  methods \<^verbatim>\<open>_getImgRDD\<close> and \<^verbatim>\<open>mean\<close>, the latter with the nested functions
  \<^verbatim>\<open>_mean\<close> and \<^verbatim>\<open>_perDim\<close>.

  A sample is a \<^verbatim>\<open>numpy.uint8\<close>. The exceptions the code can raise are numpy's
  \<^verbatim>\<open>ValueError\<close> (a \<^verbatim>\<open>reshape\<close> to a shape of another size) and Python's
  \<^verbatim>\<open>IndexError\<close> (an index outside a list or an axis). The specification calls
  the first \<^verbatim>\<open>GeometryError\<close> and the second \<^verbatim>\<open>ChannelIndexError\<close>.

  A \<^verbatim>\<open>numpy.float64\<close> is modelled by the rational number it stands for, or
  \<open>NaN\<close>. The infinities are left out: no value the program computes from 8-bit
  samples reaches them.

  The geometry parameters \<^verbatim>\<open>n\<close>, \<^verbatim>\<open>nrows\<close>, \<^verbatim>\<open>ncols\<close>, \<^verbatim>\<open>ndims\<close> are
  counts (the docstring: number of stacked arrays, of rows, of columns, of dimensions), so
  they are natural numbers here.
\<close>

type_synonym uint8 = "8 word"

datatype error = ValueError | IndexError

datatype float64 = NaN | Num rat

definition bindE :: "error + 'a \<Rightarrow> ('a \<Rightarrow> error + 'b) \<Rightarrow> error + 'b" where
  "bindE r f = (case r of Inl e \<Rightarrow> Inl e | Inr v \<Rightarrow> f v)"

text \<open>
  A \<^verbatim>\<open>for\<close> loop that appends one result per element, and a list comprehension:
  the elements are evaluated from left to right and the first exception ends the loop.
\<close>

primrec mapM :: "('a \<Rightarrow> error + 'b) \<Rightarrow> 'a list \<Rightarrow> error + 'b list" where
  "mapM f [] = Inr []"
| "mapM f (a # as) = bindE (f a) (\<lambda>b. bindE (mapM f as) (\<lambda>bs. Inr (b # bs)))"

section \<open>The library operations the code calls\<close>

text \<open>
  \<^verbatim>\<open>x[a:b]\<close> on a one-dimensional array, for indices that are not negative: the elements
  at the positions \<open>a \<le> k < b\<close> that exist. A slice never raises.
\<close>

definition slice_arr :: "'a list \<Rightarrow> nat \<Rightarrow> nat \<Rightarrow> 'a list" where
  "slice_arr x a b = take (b - a) (drop a x)"

text \<open>\<open>pieces k m xs\<close> cuts \<open>xs\<close> into \<open>k\<close> consecutive pieces of \<open>m\<close> elements.\<close>

primrec pieces :: "nat \<Rightarrow> nat \<Rightarrow> 'a list \<Rightarrow> 'a list list" where
  "pieces 0 m xs = []"
| "pieces (Suc k) m xs = take m xs # pieces k m (drop m xs)"

text \<open>
  \<^verbatim>\<open>a.reshape(nrows, ncols, ndims)\<close> on a one-dimensional array, in numpy's default
  (C, row-major) order: \<open>nrows\<close> rows of \<open>ncols\<close> pixels of \<open>ndims\<close> samples,
  read consecutively. It raises \<^verbatim>\<open>ValueError\<close> when the sizes differ.
  A three-dimensional array is a list of rows, a row a list of pixels, a pixel a list of
  samples.
\<close>

definition reshape :: "'a list \<Rightarrow> nat \<Rightarrow> nat \<Rightarrow> nat \<Rightarrow> error + 'a list list list" where
  "reshape a nrows ncols ndims =
     (if length a = nrows * ncols * ndims
      then Inr (map (pieces ncols ndims) (pieces nrows (ncols * ndims) a))
      else Inl ValueError)"

text \<open>
  \<^verbatim>\<open>img[:,:,d]\<close>: the two-dimensional array of the samples at index \<open>d\<close> of every
  pixel; \<^verbatim>\<open>IndexError\<close> when the last axis has no index \<open>d\<close>. A nested list
  without pixels does not record the length of its last axis, so for an array with no rows
  or no columns the index is accepted here, whatever it is. \<^verbatim>\<open>_mean\<close> passes only
  arrays reshaped to \<open>ndims\<close> channels and indices below \<open>ndims\<close>, which numpy accepts
  too.
\<close>

definition channel :: "'a list list list \<Rightarrow> nat \<Rightarrow> error + 'a list list" where
  "channel img d =
     (if list_all (list_all (\<lambda>px. d < length px)) img
      then Inr (map (map (\<lambda>px. px ! d)) img)
      else Inl IndexError)"

text \<open>
  The division of two 64-bit floats, as IEEE 754 defines it and numpy's \<^verbatim>\<open>/\<close> computes
  it: the exact quotient, rounded to the nearest number with a significand of 53 bits, a
  tie to the one with the even significand. The operands here are the natural numbers
  \<open>s\<close> and \<open>k\<close>, with \<open>0 < k\<close>.

  \<open>pow2 e\<close> is \<open>2\<close> to the power \<open>e\<close>, \<open>round_even\<close> rounds to the nearest
  integer, a tie to the even one, and \<open>exponent s k\<close> is the binary exponent \<open>e\<close> of
  the quotient: \<open>2 ^ e \<le> s / k < 2 ^ (e + 1)\<close>. The floats with this exponent are the
  multiples of \<open>2 ^ (e - 52)\<close>; below \<open>2 ^ - 1022\<close> (the subnormal numbers) they
  are the multiples of \<open>2 ^ - 1074\<close>. A quotient beyond the largest float would be an
  infinity; the quotients of \<^verbatim>\<open>np.mean\<close> on 8-bit samples are at most 255.
\<close>

definition pow2 :: "int \<Rightarrow> rat" where
  "pow2 e = (if 0 \<le> e then 2 ^ nat e else 1 / 2 ^ nat (- e))"

definition round_even :: "rat \<Rightarrow> int" where
  "round_even x =
     (let f = \<lfloor>x\<rfloor>; r = x - of_int f in
      if r < 1 / 2 then f else if 1 / 2 < r then f + 1 else if even f then f else f + 1)"

definition exponent :: "nat \<Rightarrow> nat \<Rightarrow> int" where
  "exponent s k =
     (let e = int (floorlog 2 s) - int (floorlog 2 k) in
      if pow2 e * of_nat k \<le> of_nat s then e else e - 1)"

definition f64_div :: "nat \<Rightarrow> nat \<Rightarrow> rat" where
  "f64_div s k =
     (if s = 0 then 0
      else let ulp = pow2 (max (exponent s k - 52) (- 1074))
           in of_int (round_even (of_nat s / of_nat k / ulp)) * ulp)"

text \<open>
  \<^verbatim>\<open>np.mean\<close> of a two-dimensional array of \<^verbatim>\<open>uint8\<close>: the sum of all its elements,
  accumulated as \<^verbatim>\<open>float64\<close>, divided as \<^verbatim>\<open>float64\<close> by their number;
  \<^verbatim>\<open>nan\<close> (with a warning, no exception) for an array without elements. The sum of
  8-bit samples is exact in a 64-bit float as long as it is below \<open>2 ^ 53\<close>, that is for
  every array of fewer than \<open>2 ^ 45\<close> elements; the model takes it as exact.
\<close>

definition np_mean :: "uint8 list list \<Rightarrow> float64" where
  "np_mean a =
     (let xs = concat a in
      if xs = [] then NaN
      else Num (f64_div (sum_list (map unat xs)) (length xs)))"

text \<open>Indexing a Python list with an index that is not negative.\<close>

definition getitem :: "'a list \<Rightarrow> nat \<Rightarrow> error + 'a" where
  "getitem xs i = (if i < length xs then Inr (xs ! i) else Inl IndexError)"

text \<open>
  \<^verbatim>\<open>os.path.basename(p)\<close> is \<^verbatim>\<open>p[p.rfind('/') + 1:]\<close>; \<^verbatim>\<open>rfind\<close> is the last
  position of the character, or \<open>-1\<close>.
\<close>

definition rfind :: "string \<Rightarrow> char \<Rightarrow> int" where
  "rfind p c =
     (if c \<in> set p then int (length p) - 1 - int (length (takeWhile (\<lambda>a. a \<noteq> c) (rev p)))
      else - 1)"

definition basename :: "string \<Rightarrow> string" where
  "basename p = drop (nat (rfind p (CHR ''/'') + 1)) p"

section \<open>The program\<close>

text \<open>
  \<^verbatim>\<open>_getImgRDD\<close>: every pair (path, content) of the binary files becomes the pair of
  the path and the content's bytes as an array of \<^verbatim>\<open>uint8\<close>.
\<close>

definition getImgRDD :: "(string \<times> string) list \<Rightarrow> (string \<times> uint8 list) list" where
  "getImgRDD imgpair = map (\<lambda>(x, y). (x, map of_char y)) imgpair"

text \<open>\<^verbatim>\<open>_perDim\<close>: the mean of every channel of one image.\<close>

definition perDim :: "uint8 list list list \<Rightarrow> nat \<Rightarrow> error + float64 list" where
  "perDim img ndims = mapM (\<lambda>d. bindE (channel img d) (\<lambda>a. Inr (np_mean a))) [0..<ndims]"

text \<open>
  The image the comprehension of \<^verbatim>\<open>_mean\<close> builds for the index \<open>i\<close>:
  \<^verbatim>\<open>x[i*nrows*ncols*ndims : (i+1)*nrows*ncols*ndims].reshape(nrows, ncols, ndims)\<close>.
\<close>

definition block :: "nat \<Rightarrow> nat \<Rightarrow> nat \<Rightarrow> uint8 list \<Rightarrow> nat \<Rightarrow> error + uint8 list list list" where
  "block nrows ncols ndims x i =
     reshape (slice_arr x (i * nrows * ncols * ndims) ((i + 1) * nrows * ncols * ndims))
       nrows ncols ndims"

text \<open>\<^verbatim>\<open>_mean\<close>: the means of all stacked images and their channels.\<close>

definition mean_inner :: "nat \<Rightarrow> nat \<Rightarrow> nat \<Rightarrow> nat \<Rightarrow> uint8 list \<Rightarrow> error + float64 list list" where
  "mean_inner n nrows ncols ndims x =
     mapM (\<lambda>i. bindE (block nrows ncols ndims x i) (\<lambda>img. perDim img ndims)) [0..<n]"

text \<open>
  The decoding part of \<^verbatim>\<open>_mean\<close> alone: the images of the comprehension, without
  their reduction by \<^verbatim>\<open>_perDim\<close>.
\<close>

definition decode :: "nat \<Rightarrow> nat \<Rightarrow> nat \<Rightarrow> nat \<Rightarrow> uint8 list \<Rightarrow> error + uint8 list list list list" where
  "decode n nrows ncols ndims x = mapM (block nrows ncols ndims x) [0..<n]"

text \<open>A row of the data frame, with the schema's four columns.\<close>

record Row =
  Filename :: string
  CH0 :: float64
  CH1 :: float64
  CH2 :: float64

text \<open>\<^verbatim>\<open>x[1][b][c]\<close> on the list of lists of means.\<close>

definition entry :: "'a list list \<Rightarrow> nat \<Rightarrow> nat \<Rightarrow> error + 'a" where
  "entry m b c = bindE (getitem m b) (\<lambda>r. getitem r c)"

text \<open>
  The function mapped over \<^verbatim>\<open>mean_rdd\<close> when \<^verbatim>\<open>asdf\<close> is true; the components of
  the tuple are evaluated in order.
\<close>

definition mean_formatted :: "string \<times> float64 list list \<Rightarrow> error + Row" where
  "mean_formatted x =
     bindE (entry (snd x) 0 1) (\<lambda>c0.
     bindE (entry (snd x) 1 1) (\<lambda>c1.
     bindE (entry (snd x) 2 1) (\<lambda>c2.
       Inr \<lparr>Filename = basename (fst x), CH0 = c0, CH1 = c1, CH2 = c2\<rparr>)))"

text \<open>
  What \<^verbatim>\<open>mean\<close> computes for one element (identifier, array) of \<^verbatim>\<open>img_rdd\<close>:
  \<^verbatim>\<open>mapValues(_mean)\<close> keeps the key, and with \<^verbatim>\<open>asdf\<close> the result goes through
  \<^verbatim>\<open>mean_formatted\<close>.
\<close>

datatype mean_output = Means string "float64 list list" | Record Row

definition mean_elem :: "nat \<Rightarrow> nat \<Rightarrow> nat \<Rightarrow> nat \<Rightarrow> bool \<Rightarrow> string \<times> uint8 list \<Rightarrow> error + mean_output" where
  "mean_elem n nrows ncols ndims asdf kv =
     bindE (mean_inner n nrows ncols ndims (snd kv)) (\<lambda>m.
       if \<not> asdf then Inr (Means (fst kv) m)
       else bindE (mean_formatted (fst kv, m)) (\<lambda>r. Inr (Record r)))"

text \<open>
  \<^verbatim>\<open>mean\<close> on the whole \<^verbatim>\<open>img_rdd\<close>: the elements are processed independently.
  The outcome of every element is kept; how the execution substrate reports an element
  that raised is outside the model.
\<close>

definition mean :: "nat \<Rightarrow> nat \<Rightarrow> nat \<Rightarrow> nat \<Rightarrow> bool \<Rightarrow> (string \<times> uint8 list) list \<Rightarrow> (error + mean_output) list" where
  "mean n nrows ncols ndims asdf img_rdd = map (mean_elem n nrows ncols ndims asdf) img_rdd"

text \<open>
  Flattening decoded blocks again (not in the program; the specification's round trip
  needs it): the samples of every pixel, of every row, of every block, in order.
\<close>

definition flatten_blocks :: "'a list list list list \<Rightarrow> 'a list" where
  "flatten_blocks bs = concat (map (\<lambda>img. concat (concat img)) bs)"

section \<open>Auxiliary facts\<close>

subsection \<open>Results and loops\<close>

lemma bindE_Inl [simp]: "bindE (Inl e) f = Inl e"
  by (simp add: bindE_def)

lemma bindE_Inr [simp]: "bindE (Inr v) f = f v"
  by (simp add: bindE_def)

lemma bindE_eq_Inr: "bindE r f = Inr y \<longleftrightarrow> (\<exists>v. r = Inr v \<and> f v = Inr y)"
  by (cases r) simp_all

lemma mapM_Inr: "(\<And>a. a \<in> set as \<Longrightarrow> f a = Inr (g a)) \<Longrightarrow> mapM f as = Inr (map g as)"
  by (induction as) simp_all

lemma mapM_nth:
  "mapM f as = Inr bs \<Longrightarrow> length bs = length as \<and> (\<forall>i<length as. f (as ! i) = Inr (bs ! i))"
proof (induction as arbitrary: bs)
  case Nil
  then show ?case by simp
next
  case (Cons a as)
  from Cons.prems obtain b bs' where b: "f a = Inr b" and bs': "mapM f as = Inr bs'"
    and eq: "bs = b # bs'"
    by (auto simp: bindE_eq_Inr)
  from Cons.IH [OF bs'] have len: "length bs' = length as"
    and nth: "\<forall>i<length as. f (as ! i) = Inr (bs' ! i)" by simp_all
  show ?case
  proof (intro conjI allI impI)
    show "length bs = length (a # as)" using eq len by simp
  next
    fix i assume "i < length (a # as)"
    then show "f ((a # as) ! i) = Inr (bs ! i)"
      using b nth eq by (cases i) simp_all
  qed
qed

lemma mapM_Inl:
  assumes "a \<in> set as" and "f a = Inl e"
    and "\<And>a' e'. a' \<in> set as \<Longrightarrow> f a' = Inl e' \<Longrightarrow> e' = e"
  shows "mapM f as = Inl e"
  using assms
proof (induction as)
  case Nil
  then show ?case by simp
next
  case (Cons b bs)
  show ?case
  proof (cases "f b")
    case (Inl e')
    have "b \<in> set (b # bs)" by simp
    from Cons.prems(3) [OF this Inl] have "e' = e" .
    with Inl show ?thesis by simp
  next
    case (Inr v)
    from Inr Cons.prems(2) have "a \<noteq> b" by auto
    with Cons.prems(1) have mem: "a \<in> set bs" by simp
    have rest: "\<And>a' e'. a' \<in> set bs \<Longrightarrow> f a' = Inl e' \<Longrightarrow> e' = e"
    proof -
      fix a' e' assume "a' \<in> set bs" and fa: "f a' = Inl e'"
      then have "a' \<in> set (b # bs)" by simp
      from Cons.prems(3) [OF this fa] show "e' = e" .
    qed
    have "mapM f bs = Inl e" by (rule Cons.IH [OF mem Cons.prems(2) rest])
    with Inr show ?thesis by simp
  qed
qed

lemma length_pieces [simp]: "length (pieces k m xs) = k"
  by (induction k arbitrary: xs) simp_all

lemma nth_pieces: "i < k \<Longrightarrow> pieces k m xs ! i = take m (drop (i * m) xs)"
proof (induction k arbitrary: xs i)
  case 0
  then show ?case by simp
next
  case (Suc k)
  show ?case
  proof (cases i)
    case 0
    then show ?thesis by simp
  next
    case (Suc j)
    with Suc.prems have "j < k" by simp
    from Suc.IH [OF this, of "drop m xs"] Suc show ?thesis
      by (simp add: add.commute)
  qed
qed

lemma concat_pieces: "concat (pieces k m xs) = take (k * m) xs"
proof (induction k arbitrary: xs)
  case 0
  then show ?case by simp
next
  case (Suc k)
  have "take m xs @ take (k * m) (drop m xs) = take (m + k * m) xs"
    by (simp add: take_add)
  with Suc show ?case by simp
qed

lemma pieces_add: "pieces (a + b) m xs = pieces a m xs @ pieces b m (drop (a * m) xs)"
  by (induction a arbitrary: xs) (simp_all add: add.commute)

lemma pieces_take: "k * m \<le> l \<Longrightarrow> pieces k m (take l xs) = pieces k m xs"
proof (induction k arbitrary: xs l)
  case 0
  then show ?case by simp
next
  case (Suc k)
  from Suc.prems have "m \<le> l" and "k * m \<le> l - m" by simp_all
  with Suc.IH [of "l - m" "drop m xs"] show ?case
    by (simp add: drop_take min_absorb1)
qed

lemma concat_pieces_pieces:
  "concat (map (pieces c d) (pieces r (c * d) xs)) = pieces (r * c) d xs"
proof (induction r arbitrary: xs)
  case 0
  then show ?case by simp
next
  case (Suc r)
  have "pieces (c + r * c) d xs = pieces c d xs @ pieces (r * c) d (drop (c * d) xs)"
    by (rule pieces_add)
  with Suc show ?case by (simp add: pieces_take)
qed

lemma map_take_drop_pieces:
  "map (\<lambda>i. take m (drop (i * m) xs)) [0..<k] = pieces k m xs"
  by (rule nth_equalityI) (simp_all add: nth_pieces)

subsection \<open>Images and blocks\<close>

lemma Suc_mult_le: "i < k \<Longrightarrow> i * m + m \<le> k * (m::nat)"
proof -
  assume "i < k"
  then have "Suc i \<le> k" by simp
  then have "Suc i * m \<le> k * m" by (rule mult_le_mono1)
  then show ?thesis by (simp add: add.commute)
qed

lemma length_nth_pieces:
  assumes "i < k" and "k * m \<le> length xs"
  shows "length (pieces k m xs ! i) = m"
proof -
  from assms(1) have "i * m + m \<le> k * m" by (rule Suc_mult_le)
  with assms(2) have "i * m + m \<le> length xs" by simp
  then show ?thesis using assms(1) by (simp add: nth_pieces)
qed

lemma nth_nth_pieces:
  assumes "i < k" and "k * m \<le> length xs" and "j < m"
  shows "pieces k m xs ! i ! j = xs ! (i * m + j)"
proof -
  from assms(1) have "i * m + m \<le> k * m" by (rule Suc_mult_le)
  with assms(2) have "i * m \<le> length xs" by simp
  then show ?thesis using assms(1,3) by (simp add: nth_pieces)
qed

text \<open>The image that reshape builds.\<close>

lemma reshape_Inr_iff:
  "reshape a r c d = Inr img \<longleftrightarrow>
     length a = r * c * d \<and> img = map (pieces c d) (pieces r (c * d) a)"
  by (auto simp: reshape_def)

lemma reshape_Inl: "reshape a r c d = Inl e \<Longrightarrow> e = ValueError"
  by (simp add: reshape_def split: if_splits)

lemma image_row_length:
  assumes "length a = r * c * d" and "i < r"
  shows "length (pieces r (c * d) a ! i) = c * d"
  using assms by (intro length_nth_pieces) (simp_all add: mult.assoc)

lemma image_rows:
  assumes "i < r"
  shows "length (map (pieces c d) (pieces r (c * d) a) ! i) = c"
  using assms by simp

lemma image_pixel_length:
  assumes "length a = r * c * d" and "i < r" and "j < c"
  shows "length (map (pieces c d) (pieces r (c * d) a) ! i ! j) = d"
proof -
  have "length (pieces r (c * d) a ! i) = c * d"
    using assms(1,2) by (rule image_row_length)
  then have "length (pieces c d (pieces r (c * d) a ! i) ! j) = d"
    using assms(3) by (intro length_nth_pieces) simp_all
  then show ?thesis using assms(2) by simp
qed

lemma image_nth:
  assumes "length a = r * c * d" and "i < r" and "j < c" and "k < d"
  shows "map (pieces c d) (pieces r (c * d) a) ! i ! j ! k = a ! ((i * c + j) * d + k)"
proof -
  have row: "length (pieces r (c * d) a ! i) = c * d"
    using assms(1,2) by (rule image_row_length)
  from assms(3,4) have "j * d + k < j * d + d" by simp
  also from assms(3) have "j * d + d \<le> c * d" by (rule Suc_mult_le)
  finally have less: "j * d + k < c * d" .
  have "map (pieces c d) (pieces r (c * d) a) ! i ! j ! k
      = pieces c d (pieces r (c * d) a ! i) ! j ! k"
    using assms(2) by simp
  also have "\<dots> = pieces r (c * d) a ! i ! (j * d + k)"
    using assms(3,4) row by (intro nth_nth_pieces) simp_all
  also have "\<dots> = a ! (i * (c * d) + (j * d + k))"
    using assms(1,2) less by (intro nth_nth_pieces) (simp_all add: mult.assoc)
  also have "i * (c * d) + (j * d + k) = (i * c + j) * d + k"
    by (simp add: algebra_simps)
  finally show ?thesis .
qed

lemma image_pixels:
  assumes "length a = r * c * d"
  shows "list_all (list_all (\<lambda>px. length px = d)) (map (pieces c d) (pieces r (c * d) a))"
  unfolding list_all_iff
proof (intro ballI)
  fix row px
  assume "row \<in> set (map (pieces c d) (pieces r (c * d) a))" and "px \<in> set row"
  then obtain i j where i: "i < r" and row: "row = map (pieces c d) (pieces r (c * d) a) ! i"
    and j: "j < length row" and px: "px = row ! j"
    by (auto simp: in_set_conv_nth)
  from image_rows [OF i, of c d a] row j have "j < c" by simp
  from image_pixel_length [OF assms i this] row px show "length px = d" by simp
qed

lemma channel_Inr:
  assumes "list_all (list_all (\<lambda>px. length px = d)) img" and "k < d"
  shows "channel img k = Inr (map (map (\<lambda>px. px ! k)) img)"
proof -
  from assms have "list_all (list_all (\<lambda>px. k < length px)) img"
    by (auto simp: list_all_iff)
  then show ?thesis by (simp add: channel_def)
qed

lemma perDim_Inr:
  assumes "list_all (list_all (\<lambda>px. length px = d)) img"
  shows "perDim img d = Inr (map (\<lambda>k. np_mean (map (map (\<lambda>px. px ! k)) img)) [0..<d])"
  unfolding perDim_def
proof (rule mapM_Inr)
  fix k assume "k \<in> set [0..<d]"
  then have "k < d" by simp
  with assms show "bindE (channel img k) (\<lambda>a. Inr (np_mean a))
      = Inr (np_mean (map (map (\<lambda>px. px ! k)) img))"
    by (simp add: channel_Inr)
qed

text \<open>The blocks.\<close>

lemma block_slice:
  "slice_arr x (i * r * c * d) ((i + 1) * r * c * d) = take (r * c * d) (drop (i * (r * c * d)) x)"
proof -
  have "(i + 1) * r * c * d - i * r * c * d = r * c * d"
    by (simp add: algebra_simps)
  moreover have "i * r * c * d = i * (r * c * d)"
    by (simp add: mult.assoc)
  ultimately show ?thesis by (simp only: slice_arr_def)
qed

lemma block_Inr_iff:
  "block r c d x i = Inr img \<longleftrightarrow>
     r * c * d \<le> length x - i * (r * c * d) \<and>
     img = map (pieces c d) (pieces r (c * d) (take (r * c * d) (drop (i * (r * c * d)) x)))"
  unfolding block_def block_slice reshape_Inr_iff by auto

lemma block_Inl: "block r c d x i = Inl e \<Longrightarrow> e = ValueError"
  unfolding block_def by (rule reshape_Inl)

lemma block_fits:
  assumes "i < n" and "n * (r * c * d) \<le> length x"
  shows "block r c d x i
     = Inr (map (pieces c d) (pieces r (c * d) (take (r * c * d) (drop (i * (r * c * d)) x))))"
proof -
  from assms(1) have "i * (r * c * d) + r * c * d \<le> n * (r * c * d)" by (rule Suc_mult_le)
  with assms(2) have "i * (r * c * d) + r * c * d \<le> length x" by simp
  then have "r * c * d \<le> length x - i * (r * c * d)" by simp
  then show ?thesis by (simp add: block_Inr_iff)
qed

lemma block_pixels:
  assumes "block r c d x i = Inr img"
  shows "list_all (list_all (\<lambda>px. length px = d)) img"
proof -
  from assms have len: "length (take (r * c * d) (drop (i * (r * c * d)) x)) = r * c * d"
    and img: "img = map (pieces c d) (pieces r (c * d) (take (r * c * d) (drop (i * (r * c * d)) x)))"
    by (simp_all add: block_Inr_iff)
  from image_pixels [OF len] img show ?thesis by simp
qed

lemma block_perDim:
  assumes "block r c d x i = Inr img"
  shows "perDim img d = Inr (map (\<lambda>k. np_mean (map (map (\<lambda>px. px ! k)) img)) [0..<d])"
  using block_pixels [OF assms] by (rule perDim_Inr)

subsection \<open>Decoding and the means\<close>

lemma mapM_cong:
  "(\<And>a. a \<in> set as \<Longrightarrow> f a = g a) \<Longrightarrow> mapM f as = mapM g as"
  by (induction as) simp_all

lemma mapM_bindE:
  assumes "\<And>a b. a \<in> set as \<Longrightarrow> f a = Inr b \<Longrightarrow> g b = Inr (h b)"
  shows "mapM (\<lambda>a. bindE (f a) g) as = bindE (mapM f as) (\<lambda>bs. Inr (map h bs))"
  using assms
proof (induction as)
  case Nil
  then show ?case by simp
next
  case (Cons a as)
  have IH: "mapM (\<lambda>a. bindE (f a) g) as = bindE (mapM f as) (\<lambda>bs. Inr (map h bs))"
  proof (rule Cons.IH)
    fix a' b assume "a' \<in> set as" and fa: "f a' = Inr b"
    then have "a' \<in> set (a # as)" by simp
    from Cons.prems [OF this fa] show "g b = Inr (h b)" .
  qed
  show ?case
  proof (cases "f a")
    case (Inl e)
    then show ?thesis by simp
  next
    case (Inr b)
    have "g b = Inr (h b)" by (rule Cons.prems [OF _ Inr]) simp
    with Inr IH show ?thesis by (cases "mapM f as") simp_all
  qed
qed

text \<open>The means of the channels of an image, as \<open>perDim\<close> computes them on a block.\<close>

lemma mean_inner_decode:
  "mean_inner n r c d x =
     bindE (decode n r c d x)
       (\<lambda>bs. Inr (map (\<lambda>img. map (\<lambda>k. np_mean (map (map (\<lambda>px. px ! k)) img)) [0..<d]) bs))"
  unfolding mean_inner_def decode_def
  by (rule mapM_bindE) (rule block_perDim)

lemma decode_nth:
  assumes "decode n r c d x = Inr bs"
  shows "length bs = n" and "i < n \<Longrightarrow> block r c d x i = Inr (bs ! i)"
proof -
  from assms have "mapM (block r c d x) [0..<n] = Inr bs" by (simp add: decode_def)
  from mapM_nth [OF this]
  have len: "length bs = length [0..<n]"
    and nth: "\<forall>i<length [0..<n]. block r c d x ([0..<n] ! i) = Inr (bs ! i)" by simp_all
  from len show "length bs = n" by simp
  assume "i < n"
  with nth show "block r c d x i = Inr (bs ! i)" by simp
qed

lemma mean_inner_nth:
  assumes "mean_inner n r c d x = Inr m"
  shows "length m = n"
    and "i < n \<Longrightarrow> \<exists>img. block r c d x i = Inr img \<and>
           m ! i = map (\<lambda>k. np_mean (map (map (\<lambda>px. px ! k)) img)) [0..<d]"
proof -
  from assms obtain bs where bs: "decode n r c d x = Inr bs"
    and m: "m = map (\<lambda>img. map (\<lambda>k. np_mean (map (map (\<lambda>px. px ! k)) img)) [0..<d]) bs"
    by (auto simp: mean_inner_decode bindE_eq_Inr)
  from decode_nth(1) [OF bs] m show "length m = n" by simp
  assume i: "i < n"
  from decode_nth(2) [OF bs i] decode_nth(1) [OF bs] i m
  show "\<exists>img. block r c d x i = Inr img \<and>
           m ! i = map (\<lambda>k. np_mean (map (map (\<lambda>px. px ! k)) img)) [0..<d]"
    by simp
qed

lemma mean_inner_shape:
  assumes "mean_inner n r c d x = Inr m"
  shows "length m = n \<and> (\<forall>i<n. length (m ! i) = d)"
proof (intro conjI allI impI)
  show "length m = n" by (rule mean_inner_nth(1) [OF assms])
  fix i assume "i < n"
  from mean_inner_nth(2) [OF assms this] show "length (m ! i) = d" by auto
qed

lemma decode_fits:
  assumes "n * (r * c * d) \<le> length x"
  shows "decode n r c d x =
     Inr (map (\<lambda>i. map (pieces c d) (pieces r (c * d) (take (r * c * d) (drop (i * (r * c * d)) x))))
            [0..<n])"
  unfolding decode_def
proof (rule mapM_Inr)
  fix i assume "i \<in> set [0..<n]"
  then have "i < n" by simp
  then show "block r c d x i =
      Inr (map (pieces c d) (pieces r (c * d) (take (r * c * d) (drop (i * (r * c * d)) x))))"
    using assms by (rule block_fits)
qed

lemma mean_inner_fits:
  assumes "n * (r * c * d) \<le> length x"
  shows "\<exists>m. mean_inner n r c d x = Inr m"
  by (simp add: mean_inner_decode decode_fits [OF assms])

text \<open>The shape of a block.\<close>

lemma block_shape:
  assumes "block r c d x i = Inr img"
  shows "length img = r" and "\<forall>row\<in>set img. length row = c"
proof -
  from assms have img:
    "img = map (pieces c d) (pieces r (c * d) (take (r * c * d) (drop (i * (r * c * d)) x)))"
    by (simp add: block_Inr_iff)
  then show "length img = r" by simp
  from img show "\<forall>row\<in>set img. length row = c" by auto
qed

lemma flat_index_less:
  assumes "i < r" and "j < c" and "k < d"
  shows "(i * c + j) * d + k < r * c * (d::nat)"
proof -
  from assms(3) have "(i * c + j) * d + k < (i * c + j) * d + d" by simp
  also have "\<dots> = (i * c + j + 1) * d" by (simp add: algebra_simps)
  also have "\<dots> \<le> (r * c) * d"
  proof (rule mult_le_mono1)
    from assms(2) have "i * c + j + 1 \<le> i * c + c" by simp
    also from assms(1) have "i * c + c \<le> r * c" by (rule Suc_mult_le)
    finally show "i * c + j + 1 \<le> r * c" .
  qed
  finally show ?thesis .
qed

lemma block_nth:
  assumes "block r c d x i = Inr img" and "p < r" and "q < c" and "k < d"
  shows "img ! p ! q ! k = x ! (i * r * c * d + (p * c + q) * d + k)"
proof -
  let ?s = "take (r * c * d) (drop (i * (r * c * d)) x)"
  from assms(1) have fits: "r * c * d \<le> length x - i * (r * c * d)"
    and img: "img = map (pieces c d) (pieces r (c * d) ?s)"
    by (simp_all add: block_Inr_iff)
  from fits have len: "length ?s = r * c * d" by simp
  have less: "(p * c + q) * d + k < r * c * d"
    using assms(2-4) by (rule flat_index_less)
  with fits have start: "i * (r * c * d) \<le> length x" by simp
  have "img ! p ! q ! k = ?s ! ((p * c + q) * d + k)"
    unfolding img using len assms(2-4) by (rule image_nth)
  also have "\<dots> = x ! (i * (r * c * d) + ((p * c + q) * d + k))"
    using less start by simp
  also have "i * (r * c * d) + ((p * c + q) * d + k) = i * r * c * d + (p * c + q) * d + k"
    by (simp add: mult.assoc)
  finally show ?thesis .
qed

lemma block_pixel_length:
  assumes "block r c d x i = Inr img" and "p < r" and "q < c"
  shows "length (img ! p ! q) = d"
proof -
  from assms(1) have "list_all (list_all (\<lambda>px. length px = d)) img" by (rule block_pixels)
  moreover from block_shape [OF assms(1)] assms(2,3)
  have "img ! p \<in> set img" and "img ! p ! q \<in> set (img ! p)" by simp_all
  ultimately show ?thesis by (auto simp: list_all_iff)
qed

lemma block_flat:
  assumes "block r c d x i = Inr img"
  shows "concat (concat img) = take (r * c * d) (drop (i * (r * c * d)) x)"
proof -
  let ?s = "take (r * c * d) (drop (i * (r * c * d)) x)"
  from assms have img: "img = map (pieces c d) (pieces r (c * d) ?s)"
    by (simp add: block_Inr_iff)
  have "concat (concat img) = concat (pieces (r * c) d ?s)"
    by (simp add: img concat_pieces_pieces)
  also have "\<dots> = take (r * c * d) ?s" by (rule concat_pieces)
  also have "\<dots> = ?s" by simp
  finally show ?thesis .
qed

subsection \<open>Buffers that are too short\<close>

lemma block_short:
  assumes "length x < n * (r * c * d)"
  shows "\<exists>i<n. block r c d x i = Inl ValueError"
proof -
  let ?m = "r * c * d"
  from assms have pos: "0 < ?m" by (cases "?m = 0") simp_all
  let ?i = "length x div ?m"
  from assms pos have i: "?i < n" by (simp add: less_mult_imp_div_less)
  have "length x - ?i * ?m = length x mod ?m"
    by (simp add: minus_div_mult_eq_mod)
  also from pos have "\<dots> < ?m" by simp
  finally have "\<not> ?m \<le> length x - ?i * ?m" by simp
  then have "\<And>img. block r c d x ?i \<noteq> Inr img" by (simp add: block_Inr_iff)
  then obtain e where "block r c d x ?i = Inl e" by (cases "block r c d x ?i") auto
  with block_Inl [OF this] have "block r c d x ?i = Inl ValueError" by simp
  with i show ?thesis by blast
qed

lemma decode_short:
  assumes "length x < n * (r * c * d)"
  shows "decode n r c d x = Inl ValueError"
proof -
  from block_short [OF assms] obtain i where i: "i < n"
    and err: "block r c d x i = Inl ValueError" by blast
  from i have mem: "i \<in> set [0..<n]" by simp
  show ?thesis unfolding decode_def
    by (rule mapM_Inl [where f = "block r c d x", OF mem err]) (rule block_Inl)
qed

subsection \<open>Rounding to a 64-bit float\<close>

lemma pow2_powi: "pow2 e = 2 powi e"
  by (simp add: pow2_def power_int_def field_simps)

lemma pow2_pos [simp]: "0 < pow2 e"
  by (simp add: pow2_powi)

lemma pow2_nonneg [simp]: "0 \<le> pow2 e"
  by (simp add: pow2_powi)

lemma pow2_neq0 [simp]: "pow2 e \<noteq> 0"
  by (simp add: pow2_powi)

lemma pow2_add: "pow2 (a + b) = pow2 a * pow2 b"
  by (simp add: pow2_powi power_int_add)

lemma pow2_nat: "pow2 (int n) = 2 ^ n"
  by (simp add: pow2_def)

lemma pow2_mono: "a \<le> b \<Longrightarrow> pow2 a \<le> pow2 b"
  by (simp add: pow2_powi power_int_increasing)

lemma pow2_less_cancel: "pow2 a < pow2 b \<Longrightarrow> a < b"
  using pow2_mono [of b a] by (cases "a < b") simp_all

lemma round_even_bounds:
  "of_int (round_even x) - x \<le> 1 / 2" "x - of_int (round_even x) \<le> 1 / 2"
  unfolding round_even_def Let_def
  by (auto simp: not_less) linarith+

lemma round_even_nonneg: "0 \<le> x \<Longrightarrow> 0 \<le> round_even x"
  unfolding round_even_def Let_def by auto

lemma round_even_le:
  assumes "x \<le> of_int n"
  shows "round_even x \<le> n"
proof (cases "\<lfloor>x\<rfloor> < n")
  case True
  then show ?thesis unfolding round_even_def Let_def by auto
next
  case False
  moreover from assms have "\<lfloor>x\<rfloor> \<le> n" by (simp add: floor_le_iff)
  ultimately have fl: "\<lfloor>x\<rfloor> = n" by simp
  then have "of_int n \<le> x" by (metis of_int_floor_le)
  with assms have "x = of_int n" by simp
  then show ?thesis by (simp add: round_even_def)
qed

lemma round_even_of_int: "round_even (of_int n) = n"
  by (simp add: round_even_def)

lemma exponent_le:
  assumes "0 < s" and "0 < k"
  shows "pow2 (exponent s k) \<le> of_nat s / of_nat k"
proof -
  let ?e = "int (floorlog 2 s) - int (floorlog 2 k)"
  from assms(2) have kpos: "0 < (of_nat k :: rat)" by simp
  show ?thesis
  proof (cases "pow2 ?e * of_nat k \<le> of_nat s")
    case True
    then have "exponent s k = ?e" by (simp add: exponent_def)
    with True kpos show ?thesis by (simp add: pos_le_divide_eq)
  next
    case False
    then have ex: "exponent s k = ?e - 1" by (simp add: exponent_def)
    from floorlog_bounds [of s 2] assms(1) have "2 ^ (floorlog 2 s - 1) \<le> s" by simp
    then have "(of_nat (2 ^ (floorlog 2 s - 1)) :: rat) \<le> of_nat s" by (simp only: of_nat_le_iff)
    then have lo: "(2 :: rat) ^ (floorlog 2 s - 1) \<le> of_nat s" by simp
    from floorlog_bounds [of k 2] assms(2) have "k < 2 ^ floorlog 2 k" by simp
    then have "(of_nat k :: rat) < of_nat (2 ^ floorlog 2 k)" by (simp only: of_nat_less_iff)
    then have hi: "(of_nat k :: rat) \<le> 2 ^ floorlog 2 k" by simp
    from assms(1) have fs: "0 < floorlog 2 s" by (simp add: floorlog_def)
    then have "?e - 1 = int (floorlog 2 s - 1) + (- int (floorlog 2 k))" by simp
    then have "pow2 (?e - 1) = pow2 (int (floorlog 2 s - 1)) * pow2 (- int (floorlog 2 k))"
      by (simp only: pow2_add)
    also have "\<dots> = 2 ^ (floorlog 2 s - 1) / 2 ^ floorlog 2 k"
      by (simp add: pow2_nat pow2_powi power_int_minus field_simps)
    also have "\<dots> \<le> of_nat s / of_nat k"
      using lo hi kpos by (intro frac_le) simp_all
    finally show ?thesis by (simp only: ex)
  qed
qed

lemma f64_div_bounds:
  assumes "0 < k" and "s \<le> 255 * k"
  shows "0 \<le> f64_div s k" and "f64_div s k \<le> 255"
proof -
  show "0 \<le> f64_div s k"
    by (simp add: f64_div_def Let_def round_even_nonneg less_imp_le)
  show "f64_div s k \<le> 255"
  proof (cases "s = 0")
    case True
    then show ?thesis by (simp add: f64_div_def)
  next
    case False
    let ?m = "of_nat s / of_nat k :: rat"
    let ?u = "max (exponent s k - 52) (- 1074)"
    from assms(1) have kpos: "0 < (of_nat k :: rat)" by simp
    from assms(2) have "(of_nat s :: rat) \<le> of_nat (255 * k)" by (simp only: of_nat_le_iff)
    with kpos have m: "?m \<le> 255" by (simp add: pos_divide_le_eq)
    from False assms(1) have "pow2 (exponent s k) \<le> ?m" by (simp add: exponent_le)
    with m have "pow2 (exponent s k) < pow2 8" by (simp add: pow2_def)
    then have "exponent s k < 8" by (rule pow2_less_cancel)
    then have u: "?u \<le> 0" by simp
    then have inv: "1 / pow2 ?u = of_int (2 ^ nat (- ?u))"
      by (simp add: pow2_powi power_int_def field_simps)
    have "?m / pow2 ?u = ?m * (1 / pow2 ?u)" by simp
    also have "\<dots> \<le> 255 * (1 / pow2 ?u)"
      using m by (intro mult_right_mono) simp_all
    also have "\<dots> = of_int (255 * 2 ^ nat (- ?u))" by (simp only: inv)
    finally have "round_even (?m / pow2 ?u) \<le> 255 * 2 ^ nat (- ?u)" by (rule round_even_le)
    then have "(of_int (round_even (?m / pow2 ?u)) :: rat) \<le> of_int (255 * 2 ^ nat (- ?u))"
      by (simp only: of_int_le_iff)
    then have "of_int (round_even (?m / pow2 ?u)) * pow2 ?u \<le> of_int (255 * 2 ^ nat (- ?u)) * pow2 ?u"
      by (intro mult_right_mono) (simp_all add: less_imp_le)
    also have "\<dots> = 255 * ((1 / pow2 ?u) * pow2 ?u)" by (simp only: inv)
    also have "\<dots> = 255" by simp
    finally show ?thesis using False by (simp add: f64_div_def Let_def)
  qed
qed

lemma f64_div_error_pos:
  assumes "0 < s" and "0 < k"
  shows "\<bar>f64_div s k - of_nat s / of_nat k\<bar> \<le> max (of_nat s / of_nat k / 2 ^ 53) (1 / 2 ^ 1075)"
proof -
  let ?m = "of_nat s / of_nat k :: rat"
  let ?u = "max (exponent s k - 52) (- 1074)"
  let ?n = "round_even (?m / pow2 ?u)"
  have val: "f64_div s k = of_int ?n * pow2 ?u"
    using assms(1) by (simp add: f64_div_def Let_def)
  have "\<bar>of_int ?n - ?m / pow2 ?u\<bar> \<le> 1 / 2"
    using round_even_bounds(1) [of "?m / pow2 ?u"] round_even_bounds(2) [of "?m / pow2 ?u"]
    by linarith
  then have a: "\<bar>of_int ?n - ?m / pow2 ?u\<bar> * pow2 ?u \<le> 1 / 2 * pow2 ?u"
    by (intro mult_right_mono) (simp_all add: less_imp_le)
  have b: "\<bar>of_int ?n - ?m / pow2 ?u\<bar> * pow2 ?u = \<bar>of_int ?n * pow2 ?u - ?m\<bar>"
  proof -
    have "\<bar>of_int ?n - ?m / pow2 ?u\<bar> * pow2 ?u = \<bar>(of_int ?n - ?m / pow2 ?u) * pow2 ?u\<bar>"
      by (simp add: abs_mult less_imp_le)
    also have "(of_int ?n - ?m / pow2 ?u) * pow2 ?u = of_int ?n * pow2 ?u - ?m"
    proof -
      show ?thesis by (simp add: left_diff_distrib)
    qed
    finally show ?thesis .
  qed
  from a have "\<bar>of_int ?n * pow2 ?u - ?m\<bar> \<le> 1 / 2 * pow2 ?u" by (simp only: b)
  then have err: "\<bar>f64_div s k - ?m\<bar> \<le> pow2 ?u / 2" by (simp only: val)
  have "pow2 ?u / 2 \<le> max (?m / 2 ^ 53) (1 / 2 ^ 1075)"
  proof (cases "- 1074 \<le> exponent s k - 52")
    case True
    then have "?u = exponent s k + (- 53) + 1" by simp
    then have "pow2 ?u = pow2 (exponent s k) * pow2 (- 53) * pow2 1" by (simp only: pow2_add)
    then have "pow2 ?u / 2 = pow2 (exponent s k) / 2 ^ 53" by (simp add: pow2_def)
    also have "\<dots> \<le> ?m / 2 ^ 53"
      using exponent_le [OF assms] by (simp add: divide_right_mono)
    finally show ?thesis by simp
  next
    case False
    then have "?u = - 1074" by simp
    then have "pow2 ?u / 2 = 1 / 2 ^ 1075" by (simp add: pow2_def)
    then show ?thesis by simp
  qed
  with err show ?thesis by simp
qed

lemma f64_div_error:
  assumes "0 < k"
  shows "\<bar>f64_div s k - of_nat s / of_nat k\<bar> \<le> max (of_nat s / of_nat k / 2 ^ 53) (1 / 2 ^ 1075)"
proof (cases "s = 0")
  case True
  then show ?thesis by (simp add: f64_div_def)
next
  case False
  then have "0 < s" by simp
  then show ?thesis using assms by (rule f64_div_error_pos)
qed

lemma exponent_gt:
  assumes "0 < s" and "0 < k"
  shows "of_nat s / of_nat k < pow2 (exponent s k + 1)"
proof -
  let ?e = "int (floorlog 2 s) - int (floorlog 2 k)"
  from assms(2) have kpos: "0 < (of_nat k :: rat)" by simp
  show ?thesis
  proof (cases "pow2 ?e * of_nat k \<le> of_nat s")
    case False
    then have "exponent s k + 1 = ?e" by (simp add: exponent_def)
    moreover from False kpos have "of_nat s / of_nat k < pow2 ?e"
      by (simp add: pos_divide_less_eq not_le)
    ultimately show ?thesis by simp
  next
    case True
    then have ex: "exponent s k = ?e" by (simp add: exponent_def)
    from floorlog_bounds [of s 2] assms(1) have "s < 2 ^ floorlog 2 s" by simp
    then have "(of_nat s :: rat) < of_nat (2 ^ floorlog 2 s)" by (simp only: of_nat_less_iff)
    then have hi: "(of_nat s :: rat) < 2 ^ floorlog 2 s" by simp
    from floorlog_bounds [of k 2] assms(2) have "2 ^ (floorlog 2 k - 1) \<le> k" by simp
    then have "(of_nat (2 ^ (floorlog 2 k - 1)) :: rat) \<le> of_nat k" by (simp only: of_nat_le_iff)
    then have lo: "(2 :: rat) ^ (floorlog 2 k - 1) \<le> of_nat k" by simp
    have "of_nat s / of_nat k < 2 ^ floorlog 2 s / (of_nat k :: rat)"
      using hi kpos by (simp add: divide_strict_right_mono)
    also have "\<dots> \<le> 2 ^ floorlog 2 s / 2 ^ (floorlog 2 k - 1)"
      using lo kpos by (intro divide_left_mono) simp_all
    also have "\<dots> = pow2 (int (floorlog 2 s)) * pow2 (- int (floorlog 2 k - 1))"
      by (simp add: pow2_nat pow2_powi power_int_minus field_simps)
    also have "\<dots> = pow2 (int (floorlog 2 s) + (- int (floorlog 2 k - 1)))"
      by (simp only: pow2_add)
    also from assms(2) have "0 < floorlog 2 k" by (simp add: floorlog_def)
    then have "int (floorlog 2 s) + (- int (floorlog 2 k - 1)) = ?e + 1" by simp
    finally show ?thesis by (simp only: ex)
  qed
qed

subsection \<open>Sums, means and prefixes\<close>

lemma length_concat_rows:
  "\<forall>row\<in>set img. length row = c \<Longrightarrow> length (concat img) = length img * c"
  by (induction img) simp_all

lemma sum_list_map_nth: "sum_list (map h xs) = (\<Sum>i<length xs. h (xs ! i))"
proof -
  have "sum_list (map h xs) = (\<Sum>i = 0..<length (map h xs). map h xs ! i)"
    by (rule sum_list_sum_nth)
  also have "\<dots> = (\<Sum>i = 0..<length xs. h (xs ! i))"
    by (rule sum.cong) simp_all
  finally show ?thesis by (simp add: atLeast0LessThan)
qed

lemma sum_list_concat_rows:
  "sum_list (map g (concat xss)) = (\<Sum>p<length xss. \<Sum>q<length (xss ! p). g (xss ! p ! q))"
proof -
  have "sum_list (map g (concat xss)) = sum_list (map (\<lambda>xs. sum_list (map g xs)) xss)"
    by (induction xss) simp_all
  also have "\<dots> = (\<Sum>p<length xss. sum_list (map g (xss ! p)))"
    by (rule sum_list_map_nth)
  also have "\<dots> = (\<Sum>p<length xss. \<Sum>q<length (xss ! p). g (xss ! p ! q))"
    by (simp add: sum_list_map_nth)
  finally show ?thesis .
qed

lemma np_mean_channel:
  assumes "length img = r" and "\<forall>row\<in>set img. length row = c" and "0 < r" and "0 < c"
  shows "np_mean (map (map f) img)
     = Num (f64_div (\<Sum>p<r. \<Sum>q<c. unat (f (img ! p ! q))) (r * c))"
proof -
  have flat: "concat (map (map f) img) = map f (concat img)"
    by (simp add: map_concat)
  have len: "length (concat img) = r * c"
    using length_concat_rows [OF assms(2)] assms(1) by simp
  have ne: "map f (concat img) \<noteq> []"
  proof
    assume "map f (concat img) = []"
    then have "length (map f (concat img)) = 0" by (simp only: list.size(3))
    then have "length (concat img) = 0" by (simp only: length_map)
    with len assms(3,4) show False by simp
  qed
  have "sum_list (map unat (map f (concat img))) = sum_list (map (\<lambda>px. unat (f px)) (concat img))"
    by (simp add: comp_def)
  also have "\<dots> = (\<Sum>p<length img. \<Sum>q<length (img ! p). unat (f (img ! p ! q)))"
    by (rule sum_list_concat_rows)
  also have "\<dots> = (\<Sum>p<r. \<Sum>q<c. unat (f (img ! p ! q)))"
  proof (rule sum.cong)
    show "{..<length img} = {..<r}" using assms(1) by simp
  next
    fix p assume "p \<in> {..<r}"
    with assms(1) have "img ! p \<in> set img" by simp
    with assms(2) have "length (img ! p) = c" by blast
    then show "(\<Sum>q<length (img ! p). unat (f (img ! p ! q))) = (\<Sum>q<c. unat (f (img ! p ! q)))"
      by simp
  qed
  finally have "sum_list (map unat (map f (concat img)))
      = (\<Sum>p<r. \<Sum>q<c. unat (f (img ! p ! q)))" .
  moreover have "np_mean (map (map f) img)
      = Num (f64_div (sum_list (map unat (map f (concat img)))) (length (map f (concat img))))"
    unfolding np_mean_def Let_def flat using ne by (simp only: if_False)
  ultimately show ?thesis using len by (simp only: length_map)
qed

lemma sum_list_unat_le: "sum_list (map unat (xs :: uint8 list)) \<le> 255 * length xs"
proof (induction xs)
  case Nil
  then show ?case by simp
next
  case (Cons w ws)
  have "unat w < 2 ^ LENGTH(8)" by (rule unsigned_less)
  then have "unat w \<le> 255" by simp
  with Cons show ?case by simp
qed

lemma np_mean_bounds:
  assumes "concat a \<noteq> []"
  shows "\<exists>q. np_mean a = Num q \<and> 0 \<le> q \<and> q \<le> 255"
proof -
  let ?s = "sum_list (map unat (concat a))" and ?l = "length (concat a)"
  from assms have pos: "0 < ?l" by simp
  have le: "?s \<le> 255 * ?l" by (rule sum_list_unat_le)
  from assms have "np_mean a = Num (f64_div ?s ?l)"
    by (simp add: np_mean_def Let_def)
  with f64_div_bounds [OF pos le] show ?thesis by blast
qed

lemma take_drop_prefix:
  assumes "i < n"
  shows "take m (drop (i * m) (take (n * m) x)) = take m (drop (i * m) x)"
proof -
  from assms have "i * m + m \<le> n * m" by (rule Suc_mult_le)
  then have "min m (n * m - i * m) = m" by simp
  then show ?thesis by (simp add: drop_take)
qed

lemma block_prefix:
  assumes "i < n" and "n * (r * c * d) \<le> length x"
  shows "block r c d (take (n * (r * c * d)) x) i = block r c d x i"
proof -
  from assms(2) have "n * (r * c * d) \<le> length (take (n * (r * c * d)) x)" by simp
  note short = block_fits [OF assms(1) this]
  have eq: "take (r * c * d) (drop (i * (r * c * d)) (take (n * (r * c * d)) x))
      = take (r * c * d) (drop (i * (r * c * d)) x)"
    by (rule take_drop_prefix [OF assms(1)])
  show ?thesis unfolding short block_fits [OF assms(1,2)] eq ..
qed

lemma mean_inner_prefix:
  assumes "n * (r * c * d) \<le> length x"
  shows "mean_inner n r c d (take (n * (r * c * d)) x) = mean_inner n r c d x"
  unfolding mean_inner_def
proof (rule mapM_cong)
  fix i assume "i \<in> set [0..<n]"
  then have "i < n" by simp
  from block_prefix [OF this assms]
  show "bindE (block r c d (take (n * (r * c * d)) x) i) (\<lambda>img. perDim img d)
      = bindE (block r c d x i) (\<lambda>img. perDim img d)"
    by simp
qed

subsection \<open>The data frame\<close>

lemma entry_eq:
  "entry m b c = (if b < length m \<and> c < length (m ! b) then Inr (m ! b ! c) else Inl IndexError)"
  by (simp add: entry_def getitem_def)

lemma mean_formatted_eq:
  "mean_formatted (k, m) =
     (if 3 \<le> length m \<and> 2 \<le> length (m ! 0) \<and> 2 \<le> length (m ! 1) \<and> 2 \<le> length (m ! 2)
      then Inr \<lparr>Filename = basename k, CH0 = m ! 0 ! 1, CH1 = m ! 1 ! 1, CH2 = m ! 2 ! 1\<rparr>
      else Inl IndexError)"
  by (simp add: mean_formatted_def entry_eq)

lemma mean_inner_entry:
  assumes "mean_inner n r c d x = Inr means" and "i < n" and "k < d"
  shows "\<exists>img a. block r c d x i = Inr img \<and> channel img k = Inr a \<and>
           means ! i ! k = np_mean a \<and> entry means i k = Inr (np_mean a)"
proof -
  from mean_inner_nth(2) [OF assms(1,2)] obtain img where
    blk: "block r c d x i = Inr img"
    and row: "means ! i = map (\<lambda>k. np_mean (map (map (\<lambda>px. px ! k)) img)) [0..<d]"
    by blast
  let ?a = "map (map (\<lambda>px. px ! k)) img"
  have chan: "channel img k = Inr ?a"
    using block_pixels [OF blk] assms(3) by (rule channel_Inr)
  from row assms(3) have val: "means ! i ! k = np_mean ?a" by simp
  from mean_inner_shape [OF assms(1)] assms(2,3) val
  have "entry means i k = Inr (np_mean ?a)" by (simp add: entry_eq)
  with blk chan val show ?thesis by blast
qed

lemma basename_plain: "CHR ''/'' \<notin> set p \<Longrightarrow> basename p = p"
  by (simp add: basename_def rfind_def)

lemma basename_dir:
  assumes "CHR ''/'' \<notin> set f"
  shows "basename (dir @ CHR ''/'' # f) = f"
proof -
  from assms have "takeWhile (\<lambda>a. a \<noteq> CHR ''/'') (rev f @ CHR ''/'' # rev dir) = rev f"
    by (simp add: takeWhile_append)
  then have "rfind (dir @ CHR ''/'' # f) (CHR ''/'') = int (length dir)"
    by (simp add: rfind_def)
  moreover have "nat (int (length dir) + 1) = Suc (length dir)" by simp
  ultimately show ?thesis by (simp add: basename_def)
qed


section \<open>The claims\<close>

text \<open>
  C2. For every buffer that holds at least \<open>n * nrows * ncols * ndims\<close> samples, the
  decoding yields exactly \<open>n\<close> blocks in stack order. Block \<open>i\<close> is the sample range
  from \<open>i * nrows * ncols * ndims\<close> to \<open>(i + 1) * nrows * ncols * ndims\<close> of the
  buffer, as \<open>nrows\<close> rows of \<open>ncols\<close> pixels of \<open>ndims\<close> samples in row-major
  order: the sample of row \<open>r\<close>, column \<open>c\<close>, channel \<open>d\<close> is the one at the offset
  \<open>(r * ncols + c) * ndims + d\<close> of the range, so the channel varies fastest, then the
  column, then the row.
\<close>

theorem decode_blocks_row_major:
  assumes "n * nrows * ncols * ndims \<le> length x"
  shows "\<exists>blocks. decode n nrows ncols ndims x = Inr blocks \<and> length blocks = n \<and>
     (\<forall>i<n. length (blocks ! i) = nrows \<and>
        concat (concat (blocks ! i))
          = take (nrows * ncols * ndims) (drop (i * (nrows * ncols * ndims)) x) \<and>
        (\<forall>r<nrows. length (blocks ! i ! r) = ncols \<and>
          (\<forall>c<ncols. length (blocks ! i ! r ! c) = ndims \<and>
            (\<forall>d<ndims. blocks ! i ! r ! c ! d
               = x ! (i * nrows * ncols * ndims + (r * ncols + c) * ndims + d)))))"
proof -
  from assms have fits: "n * (nrows * ncols * ndims) \<le> length x" by (simp add: mult.assoc)
  from decode_fits [OF fits] obtain blocks where dec: "decode n nrows ncols ndims x = Inr blocks"
    by blast
  have "length blocks = n" by (rule decode_nth(1) [OF dec])
  moreover have "\<forall>i<n. length (blocks ! i) = nrows \<and>
        concat (concat (blocks ! i))
          = take (nrows * ncols * ndims) (drop (i * (nrows * ncols * ndims)) x) \<and>
        (\<forall>r<nrows. length (blocks ! i ! r) = ncols \<and>
          (\<forall>c<ncols. length (blocks ! i ! r ! c) = ndims \<and>
            (\<forall>d<ndims. blocks ! i ! r ! c ! d
               = x ! (i * nrows * ncols * ndims + (r * ncols + c) * ndims + d))))"
  proof (intro allI impI conjI)
    fix i assume "i < n"
    then have blk: "block nrows ncols ndims x i = Inr (blocks ! i)"
      by (rule decode_nth(2) [OF dec])
    show "length (blocks ! i) = nrows" by (rule block_shape(1) [OF blk])
    show "concat (concat (blocks ! i))
          = take (nrows * ncols * ndims) (drop (i * (nrows * ncols * ndims)) x)"
      by (rule block_flat [OF blk])
    fix r assume r: "r < nrows"
    with block_shape [OF blk] show "length (blocks ! i ! r) = ncols" by simp
    fix c assume c: "c < ncols"
    show "length (blocks ! i ! r ! c) = ndims" by (rule block_pixel_length [OF blk r c])
    fix d assume "d < ndims"
    with blk r c show "blocks ! i ! r ! c ! d
        = x ! (i * nrows * ncols * ndims + (r * ncols + c) * ndims + d)"
      by (rule block_nth)
  qed
  ultimately show ?thesis using dec by blast
qed

theorem decode_blocks_row_major_witness:
  "\<exists>blocks. decode 2 1 2 2 [1, 2, 3, 4, 5, 6, 7, 8] = Inr blocks \<and> length blocks = 2 \<and>
     blocks ! 1 ! 0 ! 1 ! 0 = 7"
proof -
  have h: "2 * 1 * 2 * 2 \<le> length [1, 2, 3, 4, 5, 6, 7, 8 :: uint8]" by simp
  from decode_blocks_row_major [OF h] obtain blocks where
    dec: "decode 2 1 2 2 [1, 2, 3, 4, 5, 6, 7, 8] = Inr blocks" and len: "length blocks = 2"
    and all: "\<forall>i<2. length (blocks ! i) = 1 \<and>
        concat (concat (blocks ! i))
          = take (1 * 2 * 2) (drop (i * (1 * 2 * 2)) [1, 2, 3, 4, 5, 6, 7, 8]) \<and>
        (\<forall>r<1. length (blocks ! i ! r) = 2 \<and>
          (\<forall>c<2. length (blocks ! i ! r ! c) = 2 \<and>
            (\<forall>d<2. blocks ! i ! r ! c ! d
               = [1, 2, 3, 4, 5, 6, 7, 8] ! (i * 1 * 2 * 2 + (r * 2 + c) * 2 + d))))"
    by blast
  from all have "blocks ! 1 ! 0 ! 1 ! 0 = [1, 2, 3, 4, 5, 6, 7, 8 :: uint8] ! (1 * 1 * 2 * 2 + (0 * 2 + 1) * 2 + 0)"
    by simp
  also have "\<dots> = 7" by simp
  finally show ?thesis using dec len by blast
qed

text \<open>
  C4. For every buffer whose length is exactly \<open>n * nrows * ncols * ndims\<close>, decoding it
  into \<open>n\<close> blocks and flattening the blocks again in stack order gives back the buffer.
\<close>

theorem decode_flatten_roundtrip:
  assumes "length x = n * nrows * ncols * ndims"
  shows "\<exists>blocks. decode n nrows ncols ndims x = Inr blocks \<and> length blocks = n \<and>
     flatten_blocks blocks = x"
proof -
  let ?m = "nrows * ncols * ndims"
  from assms have len: "length x = n * ?m" by (simp add: mult.assoc)
  then have fits: "n * ?m \<le> length x" by simp
  from decode_fits [OF fits] obtain blocks where dec: "decode n nrows ncols ndims x = Inr blocks"
    by blast
  have n: "length blocks = n" by (rule decode_nth(1) [OF dec])
  have flat: "map (\<lambda>img. concat (concat img)) blocks = pieces n ?m x"
  proof (rule nth_equalityI)
    show "length (map (\<lambda>img. concat (concat img)) blocks) = length (pieces n ?m x)"
      using n by simp
  next
    fix i assume "i < length (map (\<lambda>img. concat (concat img)) blocks)"
    with n have i: "i < n" by simp
    then have "block nrows ncols ndims x i = Inr (blocks ! i)"
      by (rule decode_nth(2) [OF dec])
    then have "concat (concat (blocks ! i)) = take ?m (drop (i * ?m) x)"
      by (rule block_flat)
    with i n show "map (\<lambda>img. concat (concat img)) blocks ! i = pieces n ?m x ! i"
      by (simp add: nth_pieces)
  qed
  have "flatten_blocks blocks = concat (pieces n ?m x)"
    by (simp add: flatten_blocks_def flat)
  also have "\<dots> = take (n * ?m) x" by (rule concat_pieces)
  also have "\<dots> = x" using len by simp
  finally show ?thesis using dec n by blast
qed

theorem decode_flatten_roundtrip_witness:
  "\<exists>blocks. decode 2 1 2 2 [1, 2, 3, 4, 5, 6, 7, 8] = Inr blocks \<and> length blocks = 2 \<and>
     flatten_blocks blocks = [1, 2, 3, 4, 5, 6, 7, 8]"
proof -
  have h: "length [1, 2, 3, 4, 5, 6, 7, 8 :: uint8] = 2 * 1 * 2 * 2" by simp
  from decode_flatten_roundtrip [OF h] show ?thesis .
qed

text \<open>
  C5. For every buffer shorter than the \<open>n * nrows * ncols * ndims\<close> samples of the
  geometry, the decoding fails with the error of \<^verbatim>\<open>reshape\<close> (\<^verbatim>\<open>ValueError\<close>, the
  specification's \<^verbatim>\<open>GeometryError\<close>): no block list is returned, and so no means and no
  output for the file either.
\<close>

theorem short_buffer_error:
  assumes "length x < n * nrows * ncols * ndims"
  shows "decode n nrows ncols ndims x = Inl ValueError \<and>
     mean_inner n nrows ncols ndims x = Inl ValueError \<and>
     mean_elem n nrows ncols ndims asdf (ident, x) = Inl ValueError"
proof -
  from assms have "length x < n * (nrows * ncols * ndims)" by (simp add: mult.assoc)
  then have dec: "decode n nrows ncols ndims x = Inl ValueError" by (rule decode_short)
  then have inner: "mean_inner n nrows ncols ndims x = Inl ValueError"
    by (simp add: mean_inner_decode)
  then have "mean_elem n nrows ncols ndims asdf (ident, x) = Inl ValueError"
    by (simp add: mean_elem_def)
  with dec inner show ?thesis by simp
qed

theorem short_buffer_error_witness:
  "decode 2 1 2 2 [1, 2, 3, 4, 5, 6, 7] = Inl ValueError \<and>
     mean_inner 2 1 2 2 [1, 2, 3, 4, 5, 6, 7] = Inl ValueError \<and>
     mean_elem 2 1 2 2 True (''a/b.raw'', [1, 2, 3, 4, 5, 6, 7]) = Inl ValueError"
proof -
  have h: "length [1, 2, 3, 4, 5, 6, 7 :: uint8] < 2 * 1 * 2 * 2" by simp
  from short_buffer_error [OF h] show ?thesis .
qed

text \<open>
  C3. For every decoded block and every channel index \<open>d\<close> below \<open>ndims\<close>, the mean
  that \<^verbatim>\<open>_perDim\<close> computes for \<open>d\<close> is the arithmetic mean of the
  \<open>nrows * ncols\<close> samples of the block at channel \<open>d\<close>, their sum divided by their
  number, as a 64-bit float: the quotient rounded to the nearest float. It differs from the
  arithmetic mean by at most the fraction \<open>1 / 2 ^ 53\<close> of it (by at most
  \<open>1 / 2 ^ 1075\<close> for a subnormal quotient). Rows and columns are positive.
\<close>

theorem channel_mean_is_rounded_arithmetic_mean:
  assumes "decode n nrows ncols ndims x = Inr blocks"
    and "i < n" and "d < ndims" and "0 < nrows" and "0 < ncols"
  shows "\<exists>means q. mean_inner n nrows ncols ndims x = Inr means \<and>
     perDim (blocks ! i) ndims = Inr (means ! i) \<and>
     means ! i ! d = Num q \<and>
     q = f64_div (\<Sum>r<nrows. \<Sum>c<ncols. unat (blocks ! i ! r ! c ! d)) (nrows * ncols) \<and>
     \<bar>q - of_nat (\<Sum>r<nrows. \<Sum>c<ncols. unat (blocks ! i ! r ! c ! d)) / of_nat (nrows * ncols)\<bar>
       \<le> max (of_nat (\<Sum>r<nrows. \<Sum>c<ncols. unat (blocks ! i ! r ! c ! d))
                 / of_nat (nrows * ncols) / 2 ^ 53)
             (1 / 2 ^ 1075)"
proof -
  let ?chan = "\<lambda>img k. np_mean (map (map (\<lambda>px. px ! k)) img)"
  let ?means = "map (\<lambda>img. map (?chan img) [0..<ndims]) blocks"
  let ?s = "\<Sum>r<nrows. \<Sum>c<ncols. unat (blocks ! i ! r ! c ! d)"
  have inner: "mean_inner n nrows ncols ndims x = Inr ?means"
    by (simp add: mean_inner_decode assms(1))
  have len: "length blocks = n" by (rule decode_nth(1) [OF assms(1)])
  have blk: "block nrows ncols ndims x i = Inr (blocks ! i)"
    by (rule decode_nth(2) [OF assms(1,2)])
  have row: "?means ! i = map (?chan (blocks ! i)) [0..<ndims]"
    using len assms(2) by simp
  have per: "perDim (blocks ! i) ndims = Inr (?means ! i)"
    unfolding row by (rule block_perDim [OF blk])
  have "?means ! i ! d = ?chan (blocks ! i) d"
    using row assms(3) by simp
  also have "\<dots> = Num (f64_div ?s (nrows * ncols))"
    using block_shape [OF blk] assms(4,5) by (rule np_mean_channel)
  finally have val: "?means ! i ! d = Num (f64_div ?s (nrows * ncols))" .
  from assms(4,5) have "0 < nrows * ncols" by simp
  then have "\<bar>f64_div ?s (nrows * ncols) - of_nat ?s / of_nat (nrows * ncols)\<bar>
      \<le> max (of_nat ?s / of_nat (nrows * ncols) / 2 ^ 53) (1 / 2 ^ 1075)"
    by (rule f64_div_error)
  with inner per val show ?thesis by blast
qed

theorem channel_mean_is_rounded_arithmetic_mean_witness:
  "\<exists>means. mean_inner 1 1 3 2 [0, 10, 0, 20, 1, 30] = Inr means \<and>
     means ! 0 ! 0 = Num (6004799503160661 / 2 ^ 54) \<and> means ! 0 ! 1 = Num 20"
proof -
  let ?x = "[0, 10, 0, 20, 1, 30] :: uint8 list"
  let ?b = "[[[[0, 10], [0, 20], [1, 30]]]] :: uint8 list list list list"
  have dec: "decode 1 1 3 2 ?x = Inr ?b" by code_simp
  have sum3: "\<And>f. (\<Sum>k<(3::nat). f k) = f 0 + f 1 + (f 2 :: nat)"
    by (simp add: lessThan_Suc numeral_3_eq_3 numeral_2_eq_2)
  have q0: "f64_div 1 (1 * 3) = 6004799503160661 / 2 ^ 54" by code_simp
  have q1: "f64_div 60 (1 * 3) = 20" by code_simp
  have s0: "(\<Sum>r<(1::nat). \<Sum>c<(3::nat). unat (?b ! 0 ! r ! c ! 0)) = 1"
    by (simp add: sum3)
  have s1: "(\<Sum>r<(1::nat). \<Sum>c<(3::nat). unat (?b ! 0 ! r ! c ! 1)) = 60"
    by (simp add: sum3)
  have lt: "(0::nat) < 1" "(0::nat) < 2" "(1::nat) < 2" "(0::nat) < 3" by simp_all
  from channel_mean_is_rounded_arithmetic_mean [OF dec lt(1) lt(2) lt(1) lt(4)] obtain m0 where
    m0: "mean_inner 1 1 3 2 ?x = Inr m0"
    and r0: "m0 ! 0 ! 0
      = Num (f64_div (\<Sum>r<(1::nat). \<Sum>c<(3::nat). unat (?b ! 0 ! r ! c ! 0)) (1 * 3))"
    by blast
  from channel_mean_is_rounded_arithmetic_mean [OF dec lt(1) lt(3) lt(1) lt(4)] obtain m1 where
    m1: "mean_inner 1 1 3 2 ?x = Inr m1"
    and r1: "m1 ! 0 ! 1
      = Num (f64_div (\<Sum>r<(1::nat). \<Sum>c<(3::nat). unat (?b ! 0 ! r ! c ! 1)) (1 * 3))"
    by blast
  from r0 have v0: "m0 ! 0 ! 0 = Num (6004799503160661 / 2 ^ 54)" by (simp only: s0 q0)
  from r1 have v1: "m1 ! 0 ! 1 = Num 20" by (simp only: s1 q1)
  from m0 m1 have "m1 = m0" by simp
  with m0 v0 v1 show ?thesis by blast
qed

text \<open>
  The mean is not always the arithmetic mean itself: a third is no 64-bit float. One block
  of one row of three pixels of one channel, with the samples 0, 0 and 1, has the
  arithmetic mean \<open>1 / 3\<close> and the computed mean \<open>6004799503160661 / 2 ^ 54\<close>.
\<close>

theorem channel_mean_is_arithmetic_mean_counterexample:
  "decode 1 1 3 1 [0, 0, 1] = Inr [[[[0], [0], [1]]]] \<and>
   mean_inner 1 1 3 1 [0, 0, 1] = Inr [[Num (6004799503160661 / 2 ^ 54)]] \<and>
   Num (6004799503160661 / 2 ^ 54) \<noteq> Num (of_nat (unat (0 :: uint8) + unat (0 :: uint8) + unat (1 :: uint8)) / of_nat (1 * 3))"
proof -
  have "decode 1 1 3 1 [0, 0, 1] = Inr [[[[0], [0], [1]]]]" by code_simp
  moreover have "mean_inner 1 1 3 1 [0, 0, 1] = Inr [[Num (6004799503160661 / 2 ^ 54)]]"
    by code_simp
  moreover have "Num (6004799503160661 / 2 ^ 54)
      \<noteq> Num (of_nat (unat (0 :: uint8) + unat (0 :: uint8) + unat (1 :: uint8)) / of_nat (1 * 3))"
    by simp
  ultimately show ?thesis by blast
qed

text \<open>
  C8. For every block decoded from unsigned 8-bit samples and every channel index \<open>d\<close>,
  the computed channel mean lies in the closed interval from 0 to 255 (rows and columns are
  positive: the mean of a block without samples is \<^verbatim>\<open>nan\<close>).
\<close>

theorem channel_mean_bounds:
  assumes "mean_inner n nrows ncols ndims x = Inr means"
    and "i < n" and "d < ndims" and "0 < nrows" and "0 < ncols"
  shows "\<exists>q. means ! i ! d = Num q \<and> 0 \<le> q \<and> q \<le> 255"
proof -
  from mean_inner_nth(2) [OF assms(1,2)] obtain img where
    blk: "block nrows ncols ndims x i = Inr img"
    and row: "means ! i = map (\<lambda>k. np_mean (map (map (\<lambda>px. px ! k)) img)) [0..<ndims]"
    by blast
  from row assms(3) have val: "means ! i ! d = np_mean (map (map (\<lambda>px. px ! d)) img)"
    by simp
  from block_shape [OF blk] have "length (concat img) = nrows * ncols"
    using length_concat_rows [of img ncols] by simp
  with assms(4,5) have "length (concat (map (map (\<lambda>px. px ! d)) img)) \<noteq> 0"
    by (simp add: map_concat [symmetric])
  then have "concat (map (map (\<lambda>px. px ! d)) img) \<noteq> []"
    by (simp only: length_0_conv not_False_eq_True)
  from np_mean_bounds [OF this] val show ?thesis by simp
qed

theorem channel_mean_bounds_witness:
  "mean_inner 2 1 2 2 [255, 0, 255, 0, 0, 2, 2, 5] = Inr [[Num 255, Num 0], [Num 1, Num (7 / 2)]] \<and>
     (\<exists>q. [[Num 255, Num 0], [Num 1, Num (7 / 2)]] ! 1 ! 1 = Num q \<and> 0 \<le> q \<and> q \<le> 255)"
proof -
  have m: "mean_inner 2 1 2 2 [255, 0, 255, 0, 0, 2, 2, 5]
      = Inr [[Num 255, Num 0], [Num 1, Num (7 / 2)]]"
    by code_simp
  have "(1::nat) < 2" and "0 < (1::nat)" and "0 < (2::nat)" by simp_all
  from channel_mean_bounds [OF m this(1) this(1) this(2) this(3)] m show ?thesis by blast
qed

text \<open>
  C9. The result for a file depends only on the first \<open>n * nrows * ncols * ndims\<close>
  samples of its buffer: two buffers of at least that length that agree on this prefix give
  the same means, and with the same identifier the same output; what follows the prefix is
  ignored.
\<close>

theorem result_depends_on_prefix_only:
  assumes "take (n * nrows * ncols * ndims) x = take (n * nrows * ncols * ndims) y"
    and "n * nrows * ncols * ndims \<le> length x"
    and "n * nrows * ncols * ndims \<le> length y"
  shows "\<exists>means. mean_inner n nrows ncols ndims x = Inr means \<and>
     mean_inner n nrows ncols ndims y = Inr means \<and>
     mean_elem n nrows ncols ndims asdf (ident, x) = mean_elem n nrows ncols ndims asdf (ident, y)"
proof -
  let ?m = "nrows * ncols * ndims"
  from assms have eq: "take (n * ?m) x = take (n * ?m) y"
    and fx: "n * ?m \<le> length x" and fy: "n * ?m \<le> length y"
    by (simp_all add: mult.assoc)
  have "mean_inner n nrows ncols ndims x = mean_inner n nrows ncols ndims (take (n * ?m) x)"
    by (rule mean_inner_prefix [OF fx, symmetric])
  also have "\<dots> = mean_inner n nrows ncols ndims (take (n * ?m) y)"
    by (simp only: eq)
  also have "\<dots> = mean_inner n nrows ncols ndims y"
    by (rule mean_inner_prefix [OF fy])
  finally have same: "mean_inner n nrows ncols ndims x = mean_inner n nrows ncols ndims y" .
  from mean_inner_fits [OF fx] obtain means where mx: "mean_inner n nrows ncols ndims x = Inr means"
    by blast
  with same have my: "mean_inner n nrows ncols ndims y = Inr means" by simp
  have "mean_elem n nrows ncols ndims asdf (ident, x) = mean_elem n nrows ncols ndims asdf (ident, y)"
    by (simp add: mean_elem_def mx my)
  with mx my show ?thesis by blast
qed

theorem result_depends_on_prefix_only_witness:
  "\<exists>means. mean_inner 2 1 1 2 [1, 2, 3, 4, 9, 9, 9] = Inr means \<and>
     mean_inner 2 1 1 2 [1, 2, 3, 4] = Inr means \<and>
     mean_elem 2 1 1 2 False (''a/f.raw'', [1, 2, 3, 4, 9, 9, 9])
       = mean_elem 2 1 1 2 False (''a/f.raw'', [1, 2, 3, 4])"
proof -
  have h1: "take (2 * 1 * 1 * 2) [1, 2, 3, 4, 9, 9, 9 :: uint8] = take (2 * 1 * 1 * 2) [1, 2, 3, 4]"
    by simp
  have h2: "2 * 1 * 1 * 2 \<le> length [1, 2, 3, 4, 9, 9, 9 :: uint8]" by simp
  have h3: "2 * 1 * 1 * 2 \<le> length [1, 2, 3, 4 :: uint8]" by simp
  from result_depends_on_prefix_only [OF h1 h2 h3] show ?thesis .
qed

text \<open>
  C10. With \<^verbatim>\<open>asdf=False\<close> the value for a file is the whole matrix of means, paired with
  the file's identifier: one entry per block, in stack order, each entry the list of the
  \<open>ndims\<close> channel means of that block. This holds for every \<open>n\<close> and \<open>ndims\<close>,
  also where the three columns of the data frame do not exist; a buffer of at least
  \<open>n * nrows * ncols * ndims\<close> samples always has this value.
\<close>

theorem full_means_matrix:
  "(n * nrows * ncols * ndims \<le> length x \<longrightarrow>
      (\<exists>means. mean_elem n nrows ncols ndims False (ident, x) = Inr (Means ident means))) \<and>
   (\<forall>out. mean_elem n nrows ncols ndims False (ident, x) = Inr out \<longrightarrow>
      (\<exists>means. out = Means ident means \<and> mean_inner n nrows ncols ndims x = Inr means \<and>
         length means = n \<and>
         (\<forall>i<n. length (means ! i) = ndims \<and>
            (\<exists>img. block nrows ncols ndims x i = Inr img \<and> perDim img ndims = Inr (means ! i)))))"
proof (intro conjI allI impI)
  assume "n * nrows * ncols * ndims \<le> length x"
  then have "n * (nrows * ncols * ndims) \<le> length x" by (simp add: mult.assoc)
  from mean_inner_fits [OF this] obtain means where "mean_inner n nrows ncols ndims x = Inr means"
    by blast
  then have "mean_elem n nrows ncols ndims False (ident, x) = Inr (Means ident means)"
    by (simp add: mean_elem_def)
  then show "\<exists>means. mean_elem n nrows ncols ndims False (ident, x) = Inr (Means ident means)" ..
next
  fix out assume "mean_elem n nrows ncols ndims False (ident, x) = Inr out"
  then obtain means where inner: "mean_inner n nrows ncols ndims x = Inr means"
    and out: "out = Means ident means"
    by (auto simp: mean_elem_def bindE_eq_Inr)
  have "\<forall>i<n. length (means ! i) = ndims \<and>
      (\<exists>img. block nrows ncols ndims x i = Inr img \<and> perDim img ndims = Inr (means ! i))"
  proof (intro allI impI)
    fix i assume i: "i < n"
    from mean_inner_nth(2) [OF inner i] obtain img where
      blk: "block nrows ncols ndims x i = Inr img"
      and row: "means ! i = map (\<lambda>k. np_mean (map (map (\<lambda>px. px ! k)) img)) [0..<ndims]"
      by blast
    from block_perDim [OF blk] row have "perDim img ndims = Inr (means ! i)" by simp
    with blk row show "length (means ! i) = ndims \<and>
      (\<exists>img. block nrows ncols ndims x i = Inr img \<and> perDim img ndims = Inr (means ! i))"
      by auto
  qed
  with inner out mean_inner_nth(1) [OF inner]
  show "\<exists>means. out = Means ident means \<and> mean_inner n nrows ncols ndims x = Inr means \<and>
         length means = n \<and>
         (\<forall>i<n. length (means ! i) = ndims \<and>
            (\<exists>img. block nrows ncols ndims x i = Inr img \<and> perDim img ndims = Inr (means ! i)))"
    by blast
qed

theorem full_means_matrix_witness:
  "2 * 1 * 2 * 1 \<le> length [1, 3, 5, 8 :: uint8] \<and>
   mean_elem 2 1 2 1 False (''hdfs://d/f.raw'', [1, 3, 5, 8])
     = Inr (Means ''hdfs://d/f.raw'' [[Num 2], [Num (13 / 2)]]) \<and>
   mean_inner 2 1 2 1 [1, 3, 5, 8] = Inr [[Num 2], [Num (13 / 2)]] \<and>
   length [[Num 2], [Num (13 / 2)]] = 2 \<and>
   (\<exists>img. block 1 2 1 [1, 3, 5, 8] 0 = Inr img \<and> perDim img 1 = Inr [Num 2]) \<and>
   (\<exists>img. block 1 2 1 [1, 3, 5, 8] 1 = Inr img \<and> perDim img 1 = Inr [Num (13 / 2)])"
proof -
  let ?x = "[1, 3, 5, 8] :: uint8 list" and ?k = "''hdfs://d/f.raw''"
  note inst = full_means_matrix [of 2 1 2 1 ?x ?k]
  have h: "2 * 1 * 2 * 1 \<le> length ?x" by simp
  from inst [THEN conjunct1, rule_format, OF h]
  obtain means where e: "mean_elem 2 1 2 1 False (?k, ?x) = Inr (Means ?k means)" ..
  from inst [THEN conjunct2, rule_format, OF e]
  obtain means' where "Means ?k means = Means ?k means'"
    and inner: "mean_inner 2 1 2 1 ?x = Inr means'" and len: "length means' = 2"
    and rows: "\<forall>i<2. length (means' ! i) = 1 \<and>
      (\<exists>img. block 1 2 1 ?x i = Inr img \<and> perDim img 1 = Inr (means' ! i))"
    by blast
  then have same: "means' = means" by simp
  have "mean_inner 2 1 2 1 ?x = Inr [[Num 2], [Num (13 / 2)]]" by code_simp
  with inner have val: "means' = [[Num 2], [Num (13 / 2)]]" by simp
  from rows have "\<exists>img. block 1 2 1 ?x 0 = Inr img \<and> perDim img 1 = Inr (means' ! 0)"
    and "\<exists>img. block 1 2 1 ?x 1 = Inr img \<and> perDim img 1 = Inr (means' ! 1)"
    by simp_all
  then have r0: "\<exists>img. block 1 2 1 ?x 0 = Inr img \<and> perDim img 1 = Inr [Num 2]"
    and r1: "\<exists>img. block 1 2 1 ?x 1 = Inr img \<and> perDim img 1 = Inr [Num (13 / 2)]"
    unfolding val by simp_all
  from h e inner len r0 r1 show ?thesis unfolding same [symmetric] val by (intro conjI)
qed

text \<open>
  C6. When the means of a file have been computed and the file has fewer than 3 blocks or
  fewer than 2 channels, the projection onto the three columns refers to an index that the
  matrix of means does not have, and it fails with \<^verbatim>\<open>IndexError\<close> (the specification's
  \<^verbatim>\<open>ChannelIndexError\<close>); so does the processing of the file with \<^verbatim>\<open>asdf=True\<close>.
\<close>

theorem legacy_projection_index_error:
  assumes "mean_inner n nrows ncols ndims x = Inr means" and "n < 3 \<or> ndims < 2"
  shows "mean_formatted (ident, means) = Inl IndexError \<and>
     mean_elem n nrows ncols ndims True (ident, x) = Inl IndexError"
proof -
  from mean_inner_shape [OF assms(1)] have len: "length means = n"
    and rows: "\<forall>i<n. length (means ! i) = ndims" by simp_all
  have "\<not> (3 \<le> length means \<and> 2 \<le> length (means ! 0) \<and> 2 \<le> length (means ! 1)
      \<and> 2 \<le> length (means ! 2))"
  proof
    assume ok: "3 \<le> length means \<and> 2 \<le> length (means ! 0) \<and> 2 \<le> length (means ! 1)
      \<and> 2 \<le> length (means ! 2)"
    with len have "0 < n" by simp
    with rows have "length (means ! 0) = ndims" by blast
    with ok len assms(2) show False by simp
  qed
  then have proj: "mean_formatted (ident, means) = Inl IndexError"
    by (simp only: mean_formatted_eq if_False)
  then have "mean_elem n nrows ncols ndims True (ident, x) = Inl IndexError"
    by (simp add: mean_elem_def assms(1))
  with proj show ?thesis by simp
qed

theorem legacy_projection_index_error_witness:
  "mean_formatted (''d/f.raw'', [[Num 1, Num 3], [Num 5, Num 8]]) = Inl IndexError \<and>
     mean_elem 2 1 1 2 True (''d/f.raw'', [1, 3, 5, 8]) = Inl IndexError"
proof -
  have m: "mean_inner 2 1 1 2 [1, 3, 5, 8] = Inr [[Num 1, Num 3], [Num 5, Num 8]]"
    by code_simp
  have h: "(2::nat) < 3 \<or> (2::nat) < 2" by simp
  from legacy_projection_index_error [OF m h] show ?thesis .
qed

text \<open>
  C1. With \<^verbatim>\<open>asdf=True\<close>, the row of a file has as \<open>Filename\<close> the base name of
  the file's identifier, and its columns are \<open>CH0\<close>, the mean of channel 1 of block 0,
  \<open>CH1\<close>, the mean of channel 1 of block 1, and \<open>CH2\<close>, the mean of channel 1 of
  block 2. A file with at least 3 blocks, at least 2 channels and a buffer of at least
  \<open>n * nrows * ncols * ndims\<close> samples has such a row.
\<close>

theorem legacy_row_columns:
  "(3 \<le> n \<and> 2 \<le> ndims \<and> n * nrows * ncols * ndims \<le> length x \<longrightarrow>
      (\<exists>row. mean_elem n nrows ncols ndims True (ident, x) = Inr (Record row))) \<and>
   (\<forall>out. mean_elem n nrows ncols ndims True (ident, x) = Inr out \<longrightarrow>
      (\<exists>row means b0 b1 b2 a0 a1 a2.
         out = Record row \<and> mean_inner n nrows ncols ndims x = Inr means \<and>
         Filename row = basename ident \<and>
         block nrows ncols ndims x 0 = Inr b0 \<and> channel b0 1 = Inr a0 \<and>
         CH0 row = np_mean a0 \<and> CH0 row = means ! 0 ! 1 \<and>
         block nrows ncols ndims x 1 = Inr b1 \<and> channel b1 1 = Inr a1 \<and>
         CH1 row = np_mean a1 \<and> CH1 row = means ! 1 ! 1 \<and>
         block nrows ncols ndims x 2 = Inr b2 \<and> channel b2 1 = Inr a2 \<and>
         CH2 row = np_mean a2 \<and> CH2 row = means ! 2 ! 1))"
proof (intro conjI allI impI)
  assume "3 \<le> n \<and> 2 \<le> ndims \<and> n * nrows * ncols * ndims \<le> length x"
  then have n: "3 \<le> n" and d: "2 \<le> ndims" and "n * (nrows * ncols * ndims) \<le> length x"
    by (simp_all add: mult.assoc)
  from mean_inner_fits [OF this(3)] obtain means where
    inner: "mean_inner n nrows ncols ndims x = Inr means" by blast
  from mean_inner_shape [OF inner] n d
  have "3 \<le> length means \<and> 2 \<le> length (means ! 0) \<and> 2 \<le> length (means ! 1)
      \<and> 2 \<le> length (means ! 2)" by simp
  then have "mean_formatted (ident, means)
      = Inr \<lparr>Filename = basename ident, CH0 = means ! 0 ! 1, CH1 = means ! 1 ! 1,
             CH2 = means ! 2 ! 1\<rparr>"
    by (simp add: mean_formatted_eq)
  with inner show "\<exists>row. mean_elem n nrows ncols ndims True (ident, x) = Inr (Record row)"
    by (simp add: mean_elem_def)
next
  fix out assume "mean_elem n nrows ncols ndims True (ident, x) = Inr out"
  then obtain means row where inner: "mean_inner n nrows ncols ndims x = Inr means"
    and proj: "mean_formatted (ident, means) = Inr row" and out: "out = Record row"
    by (auto simp: mean_elem_def bindE_eq_Inr)
  from proj have shape: "3 \<le> length means \<and> 2 \<le> length (means ! 0) \<and> 2 \<le> length (means ! 1)
      \<and> 2 \<le> length (means ! 2)"
    and row: "row = \<lparr>Filename = basename ident, CH0 = means ! 0 ! 1, CH1 = means ! 1 ! 1,
             CH2 = means ! 2 ! 1\<rparr>"
    by (simp_all add: mean_formatted_eq split: if_splits)
  from mean_inner_shape [OF inner] shape have n: "0 < n" "1 < n" "2 < n" and d: "1 < ndims"
    by auto
  from mean_inner_entry [OF inner n(1) d] obtain b0 a0 where
    c0: "block nrows ncols ndims x 0 = Inr b0" "channel b0 1 = Inr a0" "means ! 0 ! 1 = np_mean a0"
    by blast
  from mean_inner_entry [OF inner n(2) d] obtain b1 a1 where
    c1: "block nrows ncols ndims x 1 = Inr b1" "channel b1 1 = Inr a1" "means ! 1 ! 1 = np_mean a1"
    by blast
  from mean_inner_entry [OF inner n(3) d] obtain b2 a2 where
    c2: "block nrows ncols ndims x 2 = Inr b2" "channel b2 1 = Inr a2" "means ! 2 ! 1 = np_mean a2"
    by blast
  from row have cols: "Filename row = basename ident" "CH0 row = means ! 0 ! 1"
    "CH1 row = means ! 1 ! 1" "CH2 row = means ! 2 ! 1"
    by simp_all
  from out inner cols c0 c1 c2
  have "out = Record row \<and> mean_inner n nrows ncols ndims x = Inr means \<and>
         Filename row = basename ident \<and>
         block nrows ncols ndims x 0 = Inr b0 \<and> channel b0 1 = Inr a0 \<and>
         CH0 row = np_mean a0 \<and> CH0 row = means ! 0 ! 1 \<and>
         block nrows ncols ndims x 1 = Inr b1 \<and> channel b1 1 = Inr a1 \<and>
         CH1 row = np_mean a1 \<and> CH1 row = means ! 1 ! 1 \<and>
         block nrows ncols ndims x 2 = Inr b2 \<and> channel b2 1 = Inr a2 \<and>
         CH2 row = np_mean a2 \<and> CH2 row = means ! 2 ! 1"
    by simp
  then show "\<exists>row means b0 b1 b2 a0 a1 a2.
         out = Record row \<and> mean_inner n nrows ncols ndims x = Inr means \<and>
         Filename row = basename ident \<and>
         block nrows ncols ndims x 0 = Inr b0 \<and> channel b0 1 = Inr a0 \<and>
         CH0 row = np_mean a0 \<and> CH0 row = means ! 0 ! 1 \<and>
         block nrows ncols ndims x 1 = Inr b1 \<and> channel b1 1 = Inr a1 \<and>
         CH1 row = np_mean a1 \<and> CH1 row = means ! 1 ! 1 \<and>
         block nrows ncols ndims x 2 = Inr b2 \<and> channel b2 1 = Inr a2 \<and>
         CH2 row = np_mean a2 \<and> CH2 row = means ! 2 ! 1"
    by (intro exI)
qed

theorem legacy_row_columns_witness:
  "3 \<le> (3::nat) \<and> 2 \<le> (2::nat) \<and> 3 * 1 * 1 * 2 \<le> length [1, 2, 3, 4, 5, 6 :: uint8] \<and>
   mean_elem 3 1 1 2 True (''hdfs://host/dir/f.raw'', [1, 2, 3, 4, 5, 6])
     = Inr (Record \<lparr>Filename = ''f.raw'', CH0 = Num 2, CH1 = Num 4, CH2 = Num 6\<rparr>)"
proof -
  let ?x = "[1, 2, 3, 4, 5, 6] :: uint8 list" and ?k = "''hdfs://host/dir/f.raw''"
  note inst = legacy_row_columns [of 3 2 1 1 ?x ?k]
  have h: "3 \<le> (3::nat) \<and> 2 \<le> (2::nat) \<and> 3 * 1 * 1 * 2 \<le> length ?x" by simp
  from inst [THEN conjunct1, rule_format, OF h]
  obtain row where e: "mean_elem 3 1 1 2 True (?k, ?x) = Inr (Record row)" ..
  from inst [THEN conjunct2, rule_format, OF e]
  obtain row' means where "Record row = Record row'"
    and inner: "mean_inner 3 1 1 2 ?x = Inr means"
    and cols: "Filename row' = basename ?k" "CH0 row' = means ! 0 ! 1"
      "CH1 row' = means ! 1 ! 1" "CH2 row' = means ! 2 ! 1"
    by blast
  then have same: "row' = row" by simp
  have "mean_inner 3 1 1 2 ?x = Inr [[Num 1, Num 2], [Num 3, Num 4], [Num 5, Num 6]]"
    by code_simp
  with inner have val: "means = [[Num 1, Num 2], [Num 3, Num 4], [Num 5, Num 6]]" by simp
  have base: "basename ?k = ''f.raw''" by code_simp
  from cols have "row = \<lparr>Filename = ''f.raw'', CH0 = Num 2, CH1 = Num 4, CH2 = Num 6\<rparr>"
    unfolding same val base by (cases row) simp
  with h e show ?thesis by simp
qed



end
